theory Spec2Isabelle
  imports Main "HOL-Library.Sublist"
begin

section \<open>dpi.cpp: the test-suite scraper, the probe callbacks and the classifier\<close>

text \<open>
  The model follows \<^verbatim>\<open>src/dpi.cpp\<close> (the first translation unit of the file,
  lines 1 to 366). A \<^verbatim>\<open>std::string\<close> is a list of bytes, a \<^verbatim>\<open>size_t\<close> index is
  a natural number, \<^verbatim>\<open>std::string::npos\<close> is \<open>None\<close>. An exception that leaves
  a function is the \<open>Inl\<close> branch of its result.
\<close>

subsection \<open>Data\<close>

text \<open>
  \<^verbatim>\<open>struct Test { std::string id, provider, url; int times{}; }\<close>.
  The fields \<^verbatim>\<open>id\<close> and \<^verbatim>\<open>times\<close> carry a suffix since both names are
  constants of HOL.
\<close>

record Test =
  id_t :: string
  provider_t :: string
  url_t :: string
  times_t :: int

text \<open>
  \<^verbatim>\<open>struct Result\<close> without \<^verbatim>\<open>elapsed_ms\<close> (a wall-clock double that no
  modelled function reads). \<^verbatim>\<open>received\<close> is a \<^verbatim>\<open>size_t\<close> byte counter.
\<close>

record Result =
  id_r :: string
  provider_r :: string
  http_code :: int
  received :: nat
  status :: string
  detail :: string
  aborted_by_threshold :: bool

text \<open>The two exceptions \<^verbatim>\<open>std::stoi\<close> raises.\<close>

datatype error = InvalidArgument | OutOfRange

text \<open>
  The outcome codes of \<^verbatim>\<open>curl_easy_perform\<close> that \<^verbatim>\<open>worker\<close> tells apart;
  every other code keeps its number, which \<^verbatim>\<open>worker\<close> prints.
\<close>

datatype CURLcode =
  CURLE_OK
| CURLE_OPERATION_TIMEDOUT
| CURLE_ABORTED_BY_CALLBACK
| CURLE_OTHER int

definition OK_THRESHOLD_BYTES :: nat where
  "OK_THRESHOLD_BYTES = 64 * 1024"

subsection \<open>std::string primitives\<close>

text \<open>Offset of the first occurrence of \<open>pat\<close> in \<open>s\<close>.\<close>

fun find_first :: "string \<Rightarrow> string \<Rightarrow> nat option" where
  "find_first pat [] = (if pat = [] then Some 0 else None)"
| "find_first pat (c # cs) =
     (if prefix pat (c # cs) then Some 0 else map_option Suc (find_first pat cs))"

text \<open>\<^verbatim>\<open>s.find(pat, pos)\<close> and \<^verbatim>\<open>s.find(c, pos)\<close>.\<close>

definition find_str :: "string \<Rightarrow> string \<Rightarrow> nat \<Rightarrow> nat option" where
  "find_str s pat pos =
     (if length s < pos then None
      else map_option (\<lambda>k. pos + k) (find_first pat (drop pos s)))"

definition find_chr :: "string \<Rightarrow> char \<Rightarrow> nat \<Rightarrow> nat option" where
  "find_chr s c pos = find_str s [c] pos"

text \<open>
  \<^verbatim>\<open>s.substr(pos, n)\<close>. The library call throws when \<open>pos\<close> is beyond the
  size; at every call site of this program \<open>pos\<close> is an index that \<^verbatim>\<open>find\<close>
  returned, or one past it, so the throwing branch is never taken.
\<close>

definition substr :: "string \<Rightarrow> nat \<Rightarrow> nat \<Rightarrow> string" where
  "substr s pos n = take n (drop pos s)"

text \<open>\<^verbatim>\<open>isspace\<close> and \<^verbatim>\<open>isdigit\<close> of the C locale.\<close>

definition isspace :: "char \<Rightarrow> bool" where
  "isspace c \<longleftrightarrow> c \<in> {CHR '' '', CHR 0x09, CHR 0x0A, CHR 0x0B, CHR 0x0C, CHR 0x0D}"

definition isdigit :: "char \<Rightarrow> bool" where
  "isdigit c \<longleftrightarrow> c \<in> set ''0123456789''"

text \<open>
  The loop \<^verbatim>\<open>while (p < s.size() && pred(s[p])) p++\<close>: the index after the
  run of characters satisfying \<open>pred\<close> that starts at \<open>p\<close>.
\<close>

definition skip_while :: "(char \<Rightarrow> bool) \<Rightarrow> string \<Rightarrow> nat \<Rightarrow> nat" where
  "skip_while pred s p = p + length (takeWhile pred (drop p s))"

text \<open>
  \<^verbatim>\<open>std::stoi(str)\<close>, base 10: leading white space, an optional sign, the
  run of digits. No digit: \<^verbatim>\<open>std::invalid_argument\<close>. A value that does not fit
  an \<^verbatim>\<open>int\<close>: \<^verbatim>\<open>std::out_of_range\<close>.
\<close>

definition digit_value :: "char \<Rightarrow> int" where
  "digit_value c = int (of_char c) - 48"

definition dec_value :: "string \<Rightarrow> int" where
  "dec_value ds = foldl (\<lambda>a c. 10 * a + digit_value c) 0 ds"

definition stoi :: "string \<Rightarrow> error + int" where
  "stoi str =
     (let s1 = dropWhile isspace str;
          neg = (s1 \<noteq> [] \<and> hd s1 = CHR ''-'');
          s2 = (if s1 \<noteq> [] \<and> (hd s1 = CHR ''-'' \<or> hd s1 = CHR ''+'') then tl s1 else s1);
          ds = takeWhile isdigit s2;
          v = (if neg then - dec_value ds else dec_value ds)
      in if ds = [] then Inl InvalidArgument
         else if v < - (2 ^ 31) \<or> 2 ^ 31 - 1 < v then Inl OutOfRange
         else Inr v)"

text \<open>\<^verbatim>\<open>std::to_string(int)\<close>.\<close>

function nat_to_dec :: "nat \<Rightarrow> string" where
  "nat_to_dec n =
     (if n < 10 then [char_of (48 + n)]
      else nat_to_dec (n div 10) @ [char_of (48 + n mod 10)])"
  by pat_completeness auto
termination
  by (relation "measure (\<lambda>n. n)") auto

definition to_string :: "int \<Rightarrow> string" where
  "to_string i = (if i < 0 then CHR ''-'' # nat_to_dec (nat (- i)) else nat_to_dec (nat i))"

subsection \<open>extractTestSuiteArray\<close>

text \<open>
  \<^verbatim>\<open>size_t depth\<close> is a 64-bit counter: \<^verbatim>\<open>depth++\<close> and \<^verbatim>\<open>depth--\<close> wrap.
\<close>

definition inc_size_t :: "nat \<Rightarrow> nat" where
  "inc_size_t d = (d + 1) mod 2 ^ 64"

definition dec_size_t :: "nat \<Rightarrow> nat" where
  "dec_size_t d = (if d = 0 then 2 ^ 64 - 1 else d - 1)"

text \<open>
  The loop \<^verbatim>\<open>for (size_t i = pos; i < html.size(); ++i)\<close>, over the characters
  from index \<open>i\<close> on: the index of the \<^verbatim>\<open>]\<close> at which \<open>depth\<close> is back at
  zero, \<open>None\<close> when the loop runs off the end.
\<close>

fun scan_brackets :: "string \<Rightarrow> nat \<Rightarrow> nat \<Rightarrow> nat option" where
  "scan_brackets [] depth i = None"
| "scan_brackets (c # cs) depth i =
     (if c = CHR ''['' then scan_brackets cs (inc_size_t depth) (i + 1)
      else if c = CHR '']'' then
        (if dec_size_t depth = 0 then Some i
         else scan_brackets cs (dec_size_t depth) (i + 1))
      else scan_brackets cs depth (i + 1))"

definition marker :: string where
  "marker = ''const TEST_SUITE''"

definition extractTestSuiteArray :: "string \<Rightarrow> string" where
  "extractTestSuiteArray html =
     (case find_str html marker 0 of
        None \<Rightarrow> []
      | Some pos0 \<Rightarrow>
          (case find_chr html CHR ''['' pos0 of
             None \<Rightarrow> []
           | Some pos \<Rightarrow>
               (case scan_brackets (drop pos html) 0 pos of
                  None \<Rightarrow> []
                | Some i \<Rightarrow> substr html pos (i - pos + 1))))"

subsection \<open>parseObject\<close>

text \<open>The lambda \<^verbatim>\<open>getString\<close>; \<open>CHR 0x22\<close> is the double quote.\<close>

definition getString :: "string \<Rightarrow> string \<Rightarrow> string" where
  "getString objText key =
     (case find_str objText (key @ '':'') 0 of
        None \<Rightarrow> []
      | Some p0 \<Rightarrow>
          (case find_chr objText (CHR 0x22) p0 of
             None \<Rightarrow> []
           | Some p \<Rightarrow>
               (case find_chr objText (CHR 0x22) (p + 1) of
                  None \<Rightarrow> []
                | Some q \<Rightarrow> substr objText (p + 1) (q - (p + 1)))))"

text \<open>The lambda \<^verbatim>\<open>getInt\<close>; it ends in \<^verbatim>\<open>std::stoi\<close>, which may throw.\<close>

definition getInt :: "string \<Rightarrow> string \<Rightarrow> error + int" where
  "getInt objText key =
     (let pat = key @ '':'' in
      case find_str objText pat 0 of
        None \<Rightarrow> Inr 0
      | Some p0 \<Rightarrow>
          (let p = skip_while isspace objText (p0 + length pat);
               q = skip_while isdigit objText p
           in stoi (substr objText p (q - p))))"

text \<open>
  \<^verbatim>\<open>bool parseObject(const std::string& objText, Test& t)\<close>: the returned flag
  and the record written to \<open>t\<close>, or the exception of \<^verbatim>\<open>getInt\<close>.
\<close>

definition parseObject :: "string \<Rightarrow> error + (bool \<times> Test)" where
  "parseObject objText =
     (let i = getString objText ''id'';
          p = getString objText ''provider'';
          u = getString objText ''url''
      in case getInt objText ''times'' of
           Inl e \<Rightarrow> Inl e
         | Inr n \<Rightarrow>
             Inr (i \<noteq> [], \<lparr>id_t = i, provider_t = p, url_t = u, times_t = n\<rparr>))"

subsection \<open>parseTestSuiteVector\<close>

text \<open>
  The inner loop \<^verbatim>\<open>for (size_t j = p; j < arrayText.size(); ++j)\<close> over the
  characters from index \<open>j\<close> on: the index of the closing brace at which
  \<open>depth\<close> is back at zero, \<open>None\<close> when the loop runs off the end.
  \<^verbatim>\<open>int depth\<close> is an unbounded integer here: no property below depends on
  its value beyond this test.
\<close>

fun scan_braces :: "string \<Rightarrow> int \<Rightarrow> nat \<Rightarrow> nat option" where
  "scan_braces [] depth j = None"
| "scan_braces (c # cs) depth j =
     (if c = CHR ''{'' then scan_braces cs (depth + 1) (j + 1)
      else if c = CHR ''}'' then
        (if depth - 1 = 0 then Some j else scan_braces cs (depth - 1) (j + 1))
      else scan_braces cs depth (j + 1))"

text \<open>
  The outer loop \<^verbatim>\<open>while (i < arrayText.size())\<close>, from the state \<open>(i, out)\<close>.
  \<open>None\<close> stands for a loop that never ends; \<open>Some (Inl e)\<close> for the exception
  of \<^verbatim>\<open>parseObject\<close> leaving the function; \<open>Some (Inr out)\<close> for the return,
  with the final vector. After an object that ends at \<open>j\<close> the code sets
  \<^verbatim>\<open>i = j + 1\<close>, leaves the inner loop and runs \<^verbatim>\<open>i++\<close>.
\<close>

partial_function (option)
  parse_loop :: "string \<Rightarrow> nat \<Rightarrow> Test list \<Rightarrow> (error + Test list) option"
where
  "parse_loop arrayText i out =
     (if i < length arrayText then
        (case find_chr arrayText CHR ''{'' i of
           None \<Rightarrow> Some (Inr out)
         | Some p \<Rightarrow>
             (case scan_braces (drop p arrayText) 0 p of
                None \<Rightarrow> parse_loop arrayText (i + 1) out
              | Some j \<Rightarrow>
                  (case parseObject (substr arrayText p (j - p + 1)) of
                     Inl e \<Rightarrow> Some (Inl e)
                   | Inr r \<Rightarrow>
                       parse_loop arrayText (j + 1 + 1)
                         (if fst r then out @ [snd r] else out))))
      else Some (Inr out))"

definition parseTestSuiteVector :: "string \<Rightarrow> Test list \<Rightarrow> (error + Test list) option" where
  "parseTestSuiteVector arrayText out = parse_loop arrayText 0 out"

subsection \<open>loadTestSuiteFromUrl\<close>

text \<open>
  \<^verbatim>\<open>fetchHtml\<close> is the transfer library's: \<open>fetched\<close> is what it leaves, the
  returned flag and the text written to \<^verbatim>\<open>html\<close>. The vector is cleared
  before the scan fills it.
\<close>

definition loadTestSuiteFromUrl ::
  "Test list \<Rightarrow> bool \<times> string \<Rightarrow> (error + Test list) option" where
  "loadTestSuiteFromUrl tests fetched =
     (if \<not> fst fetched then Some (Inr tests)
      else let arr = extractTestSuiteArray (snd fetched) in
        if arr = [] then Some (Inr tests)
        else parseTestSuiteVector arr [])"

subsection \<open>The probe callbacks\<close>

text \<open>\<^verbatim>\<open>write_cb\<close>: the Result after the call and the returned count.\<close>

definition write_cb :: "nat \<Rightarrow> nat \<Rightarrow> Result \<Rightarrow> Result \<times> nat" where
  "write_cb sz nmemb res =
     (let real = (sz * nmemb) mod 2 ^ 64
      in (res\<lparr>received := (received res + real) mod 2 ^ 64\<rparr>, real))"

text \<open>\<^verbatim>\<open>xferinfo_cb\<close>: the Result after the call and the returned int.\<close>

definition xferinfo_cb :: "Result \<Rightarrow> Result \<times> int" where
  "xferinfo_cb res =
     (if OK_THRESHOLD_BYTES \<le> received res
      then (res\<lparr>aborted_by_threshold := True\<rparr>, 1)
      else (res, 0))"

subsection \<open>worker and the loop of main that starts it\<close>

text \<open>
  What the transfer leaves behind: the code \<^verbatim>\<open>curl_easy_perform\<close> returns,
  the two fields the callbacks wrote during it, and the response code read by
  \<^verbatim>\<open>curl_easy_getinfo\<close>.
\<close>

record Transfer =
  xfer_rc :: CURLcode
  xfer_received :: nat
  xfer_aborted :: bool
  xfer_http_code :: int

text \<open>The emoji of the status strings, as the UTF-8 bytes of the source file.\<close>

definition check_mark :: string where
  "check_mark = [CHR 0xE2, CHR 0x9C, CHR 0x85]"

definition warning_sign :: string where
  "warning_sign = [CHR 0xE2, CHR 0x9A, CHR 0xA0, CHR 0xEF, CHR 0xB8, CHR 0x8F]"

definition exclamation_mark :: string where
  "exclamation_mark = [CHR 0xE2, CHR 0x9D, CHR 0x97, CHR 0xEF, CHR 0xB8, CHR 0x8F]"

text \<open>
  The \<^verbatim>\<open>switch (rc)\<close> of \<^verbatim>\<open>worker\<close>. \<^verbatim>\<open>curl_easy_strerror\<close> is the
  library's and is a parameter.
\<close>

definition classify :: "(CURLcode \<Rightarrow> string) \<Rightarrow> CURLcode \<Rightarrow> Result \<Rightarrow> Result" where
  "classify curl_easy_strerror rc res =
     (case rc of
        CURLE_OK \<Rightarrow>
          (if OK_THRESHOLD_BYTES \<le> received res
           then res\<lparr>status := ''Not detected '' @ check_mark,
                    detail := ''Received >= threshold''\<rparr>
           else res\<lparr>status := ''Possibly detected '' @ warning_sign,
                    detail := ''Stream ended, data too small''\<rparr>)
      | CURLE_OPERATION_TIMEDOUT \<Rightarrow>
          (if received res = 0
           then res\<lparr>status := ''Detected* '' @ exclamation_mark,
                    detail := ''Timeout with zero bytes (likely connection blocked)''\<rparr>
           else res\<lparr>status := ''Detected '' @ exclamation_mark,
                    detail := ''Timeout after partial data (read blocked)''\<rparr>)
      | CURLE_ABORTED_BY_CALLBACK \<Rightarrow>
          (if aborted_by_threshold res
           then res\<lparr>status := ''Not detected '' @ check_mark,
                    detail := ''Early abort: threshold reached''\<rparr>
           else res\<lparr>status := ''Detected '' @ exclamation_mark,
                    detail := ''Unexpected abort before threshold''\<rparr>)
      | CURLE_OTHER n \<Rightarrow>
          res\<lparr>status := ''Failed to complete detection '' @ warning_sign,
              detail := ''curl_error='' @ to_string n @ '' ('' @ curl_easy_strerror rc @ '')''\<rparr>)"

text \<open>
  \<^verbatim>\<open>worker(t, idx, timeout_ms)\<close>: the Result it reports. \<open>None\<close> for the
  transfer stands for a failed \<^verbatim>\<open>curl_easy_init\<close>, after which nothing is
  reported.
\<close>

definition worker ::
  "(CURLcode \<Rightarrow> string) \<Rightarrow> Transfer option \<Rightarrow> Test \<Rightarrow> int \<Rightarrow> Result option" where
  "worker curl_easy_strerror transfer t idx =
     (let res = \<lparr>id_r = (if 1 < times_t t then id_t t @ ''@'' @ to_string idx else id_t t),
                 provider_r = provider_t t, http_code = 0, received = 0,
                 status = [], detail = [], aborted_by_threshold = False\<rparr>
      in case transfer of
           None \<Rightarrow> None
         | Some x \<Rightarrow>
             Some (classify curl_easy_strerror (xfer_rc x)
                    (res\<lparr>received := xfer_received x,
                         aborted_by_threshold := xfer_aborted x,
                         http_code := xfer_http_code x\<rparr>)))"

text \<open>
  The nested loops of \<^verbatim>\<open>main\<close>: the arguments \<open>(t, i)\<close> of the workers, in the
  order the threads are created.
\<close>

definition workers :: "Test list \<Rightarrow> (Test \<times> int) list" where
  "workers tests = concat (map (\<lambda>t. map (\<lambda>i. (t, i)) [0 .. times_t t - 1]) tests)"

subsection \<open>Predicates the claims are stated with\<close>

text \<open>
  Balanced square brackets: reading the text from the left, starting at depth
  \<open>d\<close>, no closing bracket comes at depth zero and the depth at the end is zero.
  These counters are unbounded.
\<close>

fun bal :: "string \<Rightarrow> nat \<Rightarrow> bool" where
  "bal [] d = (d = 0)"
| "bal (c # cs) d =
     (if c = CHR ''['' then bal cs (d + 1)
      else if c = CHR '']'' then 0 < d \<and> bal cs (d - 1)
      else bal cs d)"

definition balanced :: "string \<Rightarrow> bool" where
  "balanced s = bal s 0"

text \<open>
  \<open>pat\<close> occurs in \<open>s\<close> at index \<open>n\<close>; and \<open>n\<close> is the index of its first
  occurrence.
\<close>

definition occurs_at :: "string \<Rightarrow> string \<Rightarrow> nat \<Rightarrow> bool" where
  "occurs_at pat s n \<longleftrightarrow> n \<le> length s \<and> prefix pat (drop n s)"

definition first_at :: "string \<Rightarrow> string \<Rightarrow> nat \<Rightarrow> bool" where
  "first_at pat s n \<longleftrightarrow> occurs_at pat s n \<and> (\<forall>m<n. \<not> occurs_at pat s m)"

section \<open>Properties of the model\<close>

subsection \<open>find and the first occurrence\<close>

text \<open>
  \<^verbatim>\<open>find\<close> returns the index of the first occurrence, and \<^verbatim>\<open>npos\<close> exactly when
  there is none.
\<close>

lemma occurs_at_Nil: "occurs_at pat [] n \<longleftrightarrow> n = 0 \<and> pat = []"
  by (auto simp: occurs_at_def)

lemma occurs_at_0: "occurs_at pat s 0 \<longleftrightarrow> prefix pat s"
  by (simp add: occurs_at_def)

lemma occurs_at_Suc: "occurs_at pat (c # cs) (Suc n) \<longleftrightarrow> occurs_at pat cs n"
  by (simp add: occurs_at_def)

lemma find_first_None: "find_first pat s = None \<Longrightarrow> \<not> occurs_at pat s n"
proof (induction s arbitrary: n)
  case Nil
  then show ?case by (simp add: occurs_at_Nil split: if_splits)
next
  case (Cons c cs)
  then show ?case
    by (cases n) (auto simp: occurs_at_0 occurs_at_Suc split: if_splits)
qed

lemma find_first_Some: "find_first pat s = Some n \<Longrightarrow> first_at pat s n"
proof (induction s arbitrary: n)
  case Nil
  then show ?case by (simp add: first_at_def occurs_at_Nil split: if_splits)
next
  case (Cons c cs)
  show ?case
  proof (cases "prefix pat (c # cs)")
    case True
    with Cons.prems show ?thesis by (simp add: first_at_def occurs_at_0)
  next
    case False
    with Cons.prems obtain k where k: "n = Suc k" "find_first pat cs = Some k"
      by auto
    from Cons.IH [OF k(2)] have f: "first_at pat cs k" .
    have "\<not> occurs_at pat (c # cs) m" if "m < Suc k" for m
    proof (cases m)
      case 0
      with False show ?thesis by (simp add: occurs_at_0)
    next
      case (Suc m')
      with that f show ?thesis by (simp add: first_at_def occurs_at_Suc)
    qed
    with f k show ?thesis by (simp add: first_at_def occurs_at_Suc)
  qed
qed

lemma first_at_unique: "first_at pat s n \<Longrightarrow> first_at pat s m \<Longrightarrow> n = m"
  unfolding first_at_def by (meson linorder_neqE_nat)

lemma first_at_iff: "first_at pat s n \<longleftrightarrow> find_first pat s = Some n"
proof
  assume f: "first_at pat s n"
  then have "occurs_at pat s n" by (simp add: first_at_def)
  then have "find_first pat s \<noteq> None" using find_first_None by blast
  then obtain m where m: "find_first pat s = Some m" by auto
  from find_first_Some [OF m] f have "m = n" by (rule first_at_unique)
  with m show "find_first pat s = Some n" by simp
qed (rule find_first_Some)

lemma no_occurrence_iff: "(\<forall>n. \<not> occurs_at pat s n) \<longleftrightarrow> find_first pat s = None"
proof
  assume a: "\<forall>n. \<not> occurs_at pat s n"
  show "find_first pat s = None"
  proof (cases "find_first pat s")
    case (Some m)
    from find_first_Some [OF Some] a show ?thesis by (simp add: first_at_def)
  qed simp
qed (blast dest: find_first_None)

lemma find_str_0: "find_str s pat 0 = find_first pat s"
  by (cases "find_first pat s") (simp_all add: find_str_def)

lemma find_chr_from:
  "p \<le> length s \<Longrightarrow> find_chr s c p = map_option (\<lambda>k. p + k) (find_first [c] (drop p s))"
  by (simp add: find_chr_def find_str_def)

lemma first_at_bound: "first_at pat s n \<Longrightarrow> n \<le> length s"
  by (simp add: first_at_def occurs_at_def)

lemma first_at_chr:
  "first_at [c] s k \<Longrightarrow> \<exists>cs. drop k s = c # cs"
  by (auto simp: first_at_def occurs_at_def prefix_def)

lemma find_first_chr_None: "find_first [c] s = None \<longleftrightarrow> c \<notin> set s"
  by (induction s) auto

lemma find_first_chr_Some:
  "find_first [c] s = Some k \<Longrightarrow> k < length s \<and> s ! k = c \<and> c \<notin> set (take k s)"
  by (induction s arbitrary: k) (auto split: if_splits)

lemma find_chr_Some:
  "find_chr s c i = Some p \<Longrightarrow> i \<le> p \<and> p < length s \<and> s ! p = c"
  by (auto simp: find_chr_def find_str_def split: if_splits dest!: find_first_chr_Some)

lemma find_first_chr_append:
  "c \<notin> set xs \<Longrightarrow> find_first [c] (xs @ c # ys) = Some (length xs)"
  by (induction xs) auto

subsection \<open>The bracket scan of extractTestSuiteArray\<close>

text \<open>
  Below \<open>2 ^ 64\<close> characters the counter \<^verbatim>\<open>depth\<close> does not wrap: it is at
  least 1 after the opening bracket and at most the number of characters read. The
  loop returns at the first index where the text read so far is balanced, and runs
  off the end when no such index exists.
\<close>

lemma inc_size_t_small: "d + 1 < 2 ^ 64 \<Longrightarrow> inc_size_t d = d + 1"
  by (simp add: inc_size_t_def)

lemma dec_size_t_pos: "0 < d \<Longrightarrow> dec_size_t d = d - 1"
  by (simp add: dec_size_t_def)

lemma inc_size_t_0: "inc_size_t 0 = 1"
  by (simp add: inc_size_t_def)

lemma scan_brackets_sound:
  "0 < d \<Longrightarrow> d + length cs < 2 ^ 64 \<Longrightarrow> scan_brackets cs d i = Some k \<Longrightarrow>
   \<exists>n. k = i + n \<and> n < length cs \<and> cs ! n = CHR '']'' \<and> bal (take (Suc n) cs) d"
proof (induction cs arbitrary: d i)
  case Nil
  then show ?case by simp
next
  case (Cons c cs)
  consider (left) "c = CHR ''[''" | (right_last) "c = CHR '']''" "d = 1"
    | (right_more) "c = CHR '']''" "1 < d" | (other) "c \<noteq> CHR ''[''" "c \<noteq> CHR '']''"
    using Cons.prems(1) by fastforce
  then show ?case
  proof cases
    case left
    have d: "0 < d + 1" "d + 1 + length cs < 2 ^ 64"
      using Cons.prems(1,2) by simp_all
    have "scan_brackets cs (d + 1) (i + 1) = Some k"
      using Cons.prems left by (simp add: inc_size_t_small)
    from Cons.IH [OF d this] obtain n where "k = i + 1 + n" "n < length cs" "cs ! n = CHR '']''"
      "bal (take (Suc n) cs) (d + 1)"
      by auto
    with left show ?thesis by (intro exI [of _ "Suc n"]) simp
  next
    case right_last
    with Cons.prems have "k = i" by (simp add: dec_size_t_pos)
    with right_last show ?thesis by (intro exI [of _ 0]) simp
  next
    case right_more
    have d: "0 < d - 1" "d - 1 + length cs < 2 ^ 64"
      using Cons.prems(1,2) right_more by simp_all
    have "scan_brackets cs (d - 1) (i + 1) = Some k"
      using Cons.prems right_more by (simp add: dec_size_t_pos)
    from Cons.IH [OF d this] obtain n where "k = i + 1 + n" "n < length cs" "cs ! n = CHR '']''"
      "bal (take (Suc n) cs) (d - 1)"
      by auto
    with right_more show ?thesis by (intro exI [of _ "Suc n"]) simp
  next
    case other
    have d: "0 < d" "d + length cs < 2 ^ 64"
      using Cons.prems(1,2) by simp_all
    have "scan_brackets cs d (i + 1) = Some k"
      using Cons.prems other by simp
    from Cons.IH [OF d this] obtain n where "k = i + 1 + n" "n < length cs" "cs ! n = CHR '']''"
      "bal (take (Suc n) cs) d"
      by auto
    with other show ?thesis by (intro exI [of _ "Suc n"]) simp
  qed
qed

lemma scan_brackets_complete:
  "0 < d \<Longrightarrow> d + length cs < 2 ^ 64 \<Longrightarrow> scan_brackets cs d i = None \<Longrightarrow>
   \<not> bal (take n cs) d"
proof (induction cs arbitrary: d i n)
  case Nil
  then show ?case by simp
next
  case (Cons c cs)
  show ?case
  proof (cases n)
    case 0
    with Cons.prems show ?thesis by simp
  next
    case (Suc m)
    consider (left) "c = CHR ''[''" | (right_last) "c = CHR '']''" "d = 1"
      | (right_more) "c = CHR '']''" "1 < d" | (other) "c \<noteq> CHR ''[''" "c \<noteq> CHR '']''"
      using Cons.prems(1) by fastforce
    then show ?thesis
    proof cases
      case left
      have d: "0 < d + 1" "d + 1 + length cs < 2 ^ 64"
        using Cons.prems(1,2) by simp_all
      have "scan_brackets cs (d + 1) (i + 1) = None"
        using Cons.prems left by (simp add: inc_size_t_small)
      from Cons.IH [OF d this] have "\<not> bal (take m cs) (d + 1)" .
      with left Suc show ?thesis by simp
    next
      case right_last
      with Cons.prems show ?thesis by (simp add: dec_size_t_pos)
    next
      case right_more
      have d: "0 < d - 1" "d - 1 + length cs < 2 ^ 64"
        using Cons.prems(1,2) right_more by simp_all
      have "scan_brackets cs (d - 1) (i + 1) = None"
        using Cons.prems right_more by (simp add: dec_size_t_pos)
      from Cons.IH [OF d this] have "\<not> bal (take m cs) (d - 1)" .
      with right_more Suc show ?thesis by simp
    next
      case other
      have d: "0 < d" "d + length cs < 2 ^ 64"
        using Cons.prems(1,2) by simp_all
      have "scan_brackets cs d (i + 1) = None"
        using Cons.prems other by simp
      from Cons.IH [OF d this] have "\<not> bal (take m cs) d" .
      with other Suc show ?thesis by simp
    qed
  qed
qed

lemma scan_from_bracket_None:
  assumes "length cs + 1 < 2 ^ 64" and "scan_brackets (CHR ''['' # cs) 0 q = None" and "0 < n"
  shows "\<not> balanced (take n (CHR ''['' # cs))"
proof -
  obtain m where n: "n = Suc m" using \<open>0 < n\<close> by (cases n) auto
  have "scan_brackets cs 1 (q + 1) = None"
    using assms(2) by (simp add: inc_size_t_0)
  then have "\<not> bal (take m cs) 1"
    using assms(1) by (intro scan_brackets_complete [where i = "q + 1"]) simp_all
  then show ?thesis by (simp add: n balanced_def)
qed

lemma scan_from_bracket_Some:
  assumes "length cs + 1 < 2 ^ 64" and "scan_brackets (CHR ''['' # cs) 0 q = Some i"
  shows "\<exists>m. i = q + m + 1 \<and> m < length cs \<and> cs ! m = CHR '']'' \<and> bal (take (Suc m) cs) 1"
proof -
  have s: "scan_brackets cs 1 (q + 1) = Some i"
    using assms(2) by (simp add: inc_size_t_0)
  have "(0::nat) < 1" "1 + length cs < 2 ^ 64"
    using assms(1) by simp_all
  from scan_brackets_sound [OF this s] show ?thesis by auto
qed

lemma scan_brackets_through:
  "bal body e \<Longrightarrow> 0 < d \<Longrightarrow> d + e + length body < 2 ^ 64 \<Longrightarrow>
   scan_brackets (body @ ys) (d + e) i = scan_brackets ys d (i + length body)"
proof (induction body arbitrary: e i)
  case Nil
  then show ?case by simp
next
  case (Cons c cs)
  consider (left) "c = CHR ''[''" | (right) "c = CHR '']''"
    | (other) "c \<noteq> CHR ''[''" "c \<noteq> CHR '']''"
    by blast
  then show ?case
  proof cases
    case left
    have "bal cs (e + 1)" "d + (e + 1) + length cs < 2 ^ 64"
      using Cons.prems left by simp_all
    from Cons.IH [OF this(1) Cons.prems(2) this(2), of "i + 1"] Cons.prems(3) left
    show ?thesis by (simp add: inc_size_t_small)
  next
    case right
    have e: "0 < e" "bal cs (e - 1)" "d + (e - 1) + length cs < 2 ^ 64"
      using Cons.prems right by simp_all
    have "dec_size_t (d + e) = d + (e - 1)" "d + (e - 1) \<noteq> 0"
      using e(1) Cons.prems(2) by (simp_all add: dec_size_t_def)
    with Cons.IH [OF e(2) Cons.prems(2) e(3), of "i + 1"] right Cons.prems(2)
    show ?thesis by simp
  next
    case other
    have "bal cs e" "d + e + length cs < 2 ^ 64"
      using Cons.prems other by simp_all
    from Cons.IH [OF this(1) Cons.prems(2) this(2), of "i + 1"] other
    show ?thesis by simp
  qed
qed

lemma extract_no_marker:
  "find_first marker html = None \<Longrightarrow> extractTestSuiteArray html = []"
  by (simp add: extractTestSuiteArray_def find_str_0)

lemma extract_no_bracket:
  "first_at marker html p \<Longrightarrow> CHR ''['' \<notin> set (drop p html) \<Longrightarrow>
   extractTestSuiteArray html = []"
  by (simp add: extractTestSuiteArray_def find_str_0 first_at_iff find_chr_from
        first_at_bound [unfolded first_at_iff] find_first_chr_None [THEN iffD2])

lemma extract_scan:
  "first_at marker html p \<Longrightarrow> first_at ''['' (drop p html) k \<Longrightarrow>
   extractTestSuiteArray html =
     (case scan_brackets (drop (p + k) html) 0 (p + k) of
        None \<Rightarrow> []
      | Some i \<Rightarrow> take (i - (p + k) + 1) (drop (p + k) html))"
  by (simp add: extractTestSuiteArray_def find_str_0 first_at_iff find_chr_from
        first_at_bound [unfolded first_at_iff] substr_def cong: option.case_cong)

lemma extract_never_balanced:
  assumes len: "length html < 2 ^ 64"
    and m: "first_at marker html p" and b: "first_at ''['' (drop p html) k"
    and u: "\<forall>n>0. \<not> balanced (take n (drop (p + k) html))"
  shows "extractTestSuiteArray html = []"
proof -
  from first_at_chr [OF b] obtain cs where cs: "drop (p + k) html = CHR ''['' # cs"
    by (auto simp: add.commute)
  have l: "length cs + 1 < 2 ^ 64"
    using len arg_cong [OF cs, of length] by simp
  show ?thesis
  proof (cases "scan_brackets (CHR ''['' # cs) 0 (p + k)")
    case None
    then show ?thesis unfolding extract_scan [OF m b] cs by simp
  next
    case (Some i)
    from scan_from_bracket_Some [OF l Some] obtain j where
      j: "j < length cs" "bal (take (Suc j) cs) 1" by blast
    then have "balanced (take (Suc (Suc j)) (CHR ''['' # cs))"
      by (simp add: balanced_def)
    with u cs show ?thesis by (metis zero_less_Suc)
  qed
qed

lemma extract_found:
  assumes len: "length html < 2 ^ 64"
    and m: "first_at marker html p" and b: "first_at ''['' (drop p html) k"
    and n: "0 < n" "balanced (take n (drop (p + k) html))"
  shows "extractTestSuiteArray html \<noteq> [] \<and>
      hd (extractTestSuiteArray html) = CHR ''['' \<and>
      last (extractTestSuiteArray html) = CHR '']'' \<and>
      balanced (extractTestSuiteArray html) \<and>
      prefix (extractTestSuiteArray html) (drop (p + k) html)"
proof -
  from first_at_chr [OF b] obtain cs where cs: "drop (p + k) html = CHR ''['' # cs"
    by (auto simp: add.commute)
  have l: "length cs + 1 < 2 ^ 64"
    using len arg_cong [OF cs, of length] by simp
  have "scan_brackets (CHR ''['' # cs) 0 (p + k) \<noteq> None"
    using scan_from_bracket_None [OF l _ n(1)] n(2) cs by auto
  then obtain i where i: "scan_brackets (CHR ''['' # cs) 0 (p + k) = Some i" by auto
  from scan_from_bracket_Some [OF l i] obtain j where
    j: "i = p + k + j + 1" "j < length cs" "cs ! j = CHR '']''" "bal (take (Suc j) cs) 1"
    by blast
  have r: "extractTestSuiteArray html = CHR ''['' # take (Suc j) cs"
    unfolding extract_scan [OF m b] cs i option.case j(1) by simp
  have "last (take (Suc j) cs) = CHR '']''"
    using j(2,3) by (simp add: take_Suc_conv_app_nth)
  moreover have "take (Suc j) cs \<noteq> []"
    using j(2) by auto
  moreover have "prefix (CHR ''['' # take (Suc j) cs) (CHR ''['' # cs)"
    by (simp add: take_is_prefix)
  ultimately show ?thesis
    using j(4) by (simp add: r cs balanced_def)
qed

subsection \<open>The loops of parseTestSuiteVector\<close>

text \<open>
  One iteration of the outer loop, by the branch it takes.
\<close>

lemma parse_loop_done: "\<not> i < length s \<Longrightarrow> parse_loop s i out = Some (Inr out)"
  by (subst parse_loop.simps) simp

lemma parse_loop_no_brace:
  "i < length s \<Longrightarrow> find_chr s CHR ''{'' i = None \<Longrightarrow> parse_loop s i out = Some (Inr out)"
  by (subst parse_loop.simps) simp

lemma parse_loop_unbalanced:
  "i < length s \<Longrightarrow> find_chr s CHR ''{'' i = Some p \<Longrightarrow> scan_braces (drop p s) 0 p = None
   \<Longrightarrow> parse_loop s i out = parse_loop s (i + 1) out"
  by (subst parse_loop.simps) simp

lemma parse_loop_object:
  "i < length s \<Longrightarrow> find_chr s CHR ''{'' i = Some p \<Longrightarrow> scan_braces (drop p s) 0 p = Some j
   \<Longrightarrow> parseObject (substr s p (j - p + 1)) = Inr (ok, t)
   \<Longrightarrow> parse_loop s i out = parse_loop s (j + 2) (if ok then out @ [t] else out)"
  by (subst parse_loop.simps) simp

lemma parse_loop_throw:
  "i < length s \<Longrightarrow> find_chr s CHR ''{'' i = Some p \<Longrightarrow> scan_braces (drop p s) 0 p = Some j
   \<Longrightarrow> parseObject (substr s p (j - p + 1)) = Inl e
   \<Longrightarrow> parse_loop s i out = Some (Inl e)"
  by (subst parse_loop.simps) simp

lemma scan_braces_bounds:
  "scan_braces cs d j = Some k \<Longrightarrow> j \<le> k \<and> k < j + length cs"
  by (induction cs d j rule: scan_braces.induct) (auto split: if_splits)

lemma scan_braces_no_close: "CHR ''}'' \<notin> set cs \<Longrightarrow> scan_braces cs d j = None"
  by (induction cs d j rule: scan_braces.induct) auto

text \<open>
  Every iteration of the outer loop moves \<open>i\<close> forward, by one when the brace
  found is never closed and past the closing brace otherwise, so the distance to
  the end of the text decreases.
\<close>

lemma parse_loop_halts: "\<exists>r. parse_loop s i out = Some r"
proof (induction "length s - i" arbitrary: i out rule: less_induct)
  case less
  show ?case
  proof (cases "i < length s")
    case False
    then show ?thesis by (simp add: parse_loop_done)
  next
    case True
    show ?thesis
    proof (cases "find_chr s CHR ''{'' i")
      case None
      with True show ?thesis by (simp add: parse_loop_no_brace)
    next
      case (Some p)
      show ?thesis
      proof (cases "scan_braces (drop p s) 0 p")
        case None
        have "\<exists>r. parse_loop s (i + 1) out = Some r"
          using True by (intro less) simp
        with True Some None show ?thesis by (simp add: parse_loop_unbalanced)
      next
        case (Some j)
        note j = this
        have "i \<le> j" using find_chr_Some [OF \<open>find_chr s CHR ''{'' i = Some p\<close>]
            scan_braces_bounds [OF j] by simp
        show ?thesis
        proof (cases "parseObject (substr s p (j - p + 1))")
          case (Inl e)
          with True \<open>find_chr s CHR ''{'' i = Some p\<close> j show ?thesis
            by (simp add: parse_loop_throw)
        next
          case (Inr r)
          obtain ok t where r: "r = (ok, t)" by (cases r)
          have "\<exists>r. parse_loop s (j + 2) (if ok then out @ [t] else out) = Some r"
            using True \<open>i \<le> j\<close> by (intro less) simp
          with True \<open>find_chr s CHR ''{'' i = Some p\<close> j Inr r show ?thesis
            by (simp add: parse_loop_object [where p = p and j = j and ok = ok and t = t])
        qed
      qed
    qed
  qed
qed

lemma parse_loop_no_close:
  "CHR ''}'' \<notin> set s \<Longrightarrow> parse_loop s i out = Some (Inr out)"
proof (induction "length s - i" arbitrary: i rule: less_induct)
  case less
  show ?case
  proof (cases "i < length s")
    case False
    then show ?thesis by (simp add: parse_loop_done)
  next
    case True
    show ?thesis
    proof (cases "find_chr s CHR ''{'' i")
      case None
      with True show ?thesis by (simp add: parse_loop_no_brace)
    next
      case (Some p)
      have "CHR ''}'' \<notin> set (drop p s)"
        using less.prems by (auto dest: in_set_dropD)
      then have "scan_braces (drop p s) 0 p = None"
        by (rule scan_braces_no_close)
      moreover have "parse_loop s (i + 1) out = Some (Inr out)"
        using True less.prems by (intro less) simp_all
      ultimately show ?thesis
        using True Some by (simp add: parse_loop_unbalanced)
    qed
  qed
qed

lemma parse_loop_returns:
  assumes ok: "\<And>p n e. parseObject (substr s p n) \<noteq> Inl e"
  shows "\<exists>ts. parse_loop s i out = Some (Inr ts)"
proof (induction "length s - i" arbitrary: i out rule: less_induct)
  case less
  show ?case
  proof (cases "i < length s")
    case False
    then show ?thesis by (simp add: parse_loop_done)
  next
    case True
    show ?thesis
    proof (cases "find_chr s CHR ''{'' i")
      case None
      with True show ?thesis by (simp add: parse_loop_no_brace)
    next
      case (Some p)
      note p = this
      show ?thesis
      proof (cases "scan_braces (drop p s) 0 p")
        case None
        have "\<exists>ts. parse_loop s (i + 1) out = Some (Inr ts)"
          using True by (intro less) simp
        with True p None show ?thesis by (simp add: parse_loop_unbalanced)
      next
        case (Some j)
        note j = this
        have ij: "i \<le> j"
          using find_chr_Some [OF p] scan_braces_bounds [OF j] by simp
        obtain b t where r: "parseObject (substr s p (j - p + 1)) = Inr (b, t)"
          using ok [of p "j - p + 1"] by (cases "parseObject (substr s p (j - p + 1))") auto
        have "\<exists>ts. parse_loop s (j + 2) (if b then out @ [t] else out) = Some (Inr ts)"
          using True ij by (intro less) simp
        then show ?thesis
          by (simp add: parse_loop_object [OF True p j r])
      qed
    qed
  qed
qed

lemma parseObject_flag:
  "parseObject obj = Inr r \<Longrightarrow> fst r = (id_t (snd r) \<noteq> [])"
  by (auto simp: parseObject_def Let_def split: sum.splits)

lemma parseObject_id:
  "parseObject obj = Inr r \<Longrightarrow> id_t (snd r) = getString obj ''id''"
  by (auto simp: parseObject_def Let_def split: sum.splits)

lemma parse_loop_ids:
  "parse_loop s i out = Some (Inr out') \<Longrightarrow>
   \<exists>new. out' = out @ new \<and> (\<forall>t \<in> set new. id_t t \<noteq> [])"
proof (induction "length s - i" arbitrary: i out rule: less_induct)
  case less
  show ?case
  proof (cases "i < length s")
    case False
    with less.prems show ?thesis by (simp add: parse_loop_done)
  next
    case True
    show ?thesis
    proof (cases "find_chr s CHR ''{'' i")
      case None
      with True less.prems show ?thesis by (simp add: parse_loop_no_brace)
    next
      case (Some p)
      note p = this
      show ?thesis
      proof (cases "scan_braces (drop p s) 0 p")
        case None
        then have "parse_loop s (i + 1) out = Some (Inr out')"
          using True p less.prems by (simp add: parse_loop_unbalanced)
        then show ?thesis using True by (intro less) simp_all
      next
        case (Some j)
        note j = this
        have ij: "i \<le> j"
          using find_chr_Some [OF p] scan_braces_bounds [OF j] by simp
        show ?thesis
        proof (cases "parseObject (substr s p (j - p + 1))")
          case (Inl e)
          with True p j less.prems show ?thesis by (simp add: parse_loop_throw)
        next
          case (Inr r)
          obtain ok t where r: "r = (ok, t)" by (cases r)
          let ?out = "if ok then out @ [t] else out"
          have "parse_loop s (j + 2) ?out = Some (Inr out')"
            using parse_loop_object [OF True p j, of ok t out] Inr r less.prems by simp
          then have "\<exists>new. out' = ?out @ new \<and> (\<forall>t \<in> set new. id_t t \<noteq> [])"
            using True ij by (intro less) simp_all
          then obtain new where new: "out' = ?out @ new" "\<forall>t \<in> set new. id_t t \<noteq> []"
            by blast
          show ?thesis
          proof (cases ok)
            case True
            then have "id_t t \<noteq> []" using parseObject_flag [OF Inr] r by simp
            with new True show ?thesis by (intro exI [of _ "t # new"]) simp
          next
            case False
            with new show ?thesis by (intro exI [of _ new]) simp
          qed
        qed
      qed
    qed
  qed
qed

lemma workers_tests: "(t, i) \<in> set (workers tests) \<Longrightarrow> t \<in> set tests"
  by (auto simp: workers_def)

lemma workers_Nil: "workers [] = []"
  by (simp add: workers_def)

lemma workers_Cons: "workers (t # tests) = map (Pair t) [0 .. times_t t - 1] @ workers tests"
  by (simp add: workers_def)

lemma workers_member:
  "(t, i) \<in> set (workers tests) \<longleftrightarrow> t \<in> set tests \<and> 0 \<le> i \<and> i < times_t t"
  by (force simp: workers_def)

subsection \<open>Evaluation on concrete texts\<close>

lemmas extract_eval = extractTestSuiteArray_def find_str_def find_chr_def marker_def
  substr_def inc_size_t_def dec_size_t_def

lemma to_string_digits: "to_string 0 = ''0''" "to_string 1 = ''1''" "to_string 2 = ''2''"
  by code_simp+

lemma upto_0_2: "[0 .. 2 :: int] = [0, 1, 2]"
  by (simp add: upto_rec1)

lemma id_r_classify: "id_r (classify se rc res) = id_r res"
  by (simp add: classify_def split: CURLcode.split)

lemma extract_without_const: "extractTestSuiteArray ''TEST_SUITE = [1]'' = []"
  by (simp add: extract_eval)

lemma extract_no_id: \<open>extractTestSuiteArray ''const TEST_SUITE = [{provider:"p"}];'' = ''[{provider:"p"}]''\<close>
  by (simp add: extract_eval)

lemma parse_no_id: \<open>parseTestSuiteVector ''[{provider:"p"}]'' [] = Some (Inr [])\<close>
proof -
  have "parse_loop ''[{provider:\"p\"}]'' 0 [] = parse_loop ''[{provider:\"p\"}]'' 16 []"
    by (subst parse_loop_object [where p = 1 and j = 14 and ok = False
          and t = "\<lparr>id_t = [], provider_t = ''p'', url_t = [], times_t = 0\<rparr>"]; code_simp)
  moreover have "parse_loop ''[{provider:\"p\"}]'' 16 [] = Some (Inr [])"
    by (rule parse_loop_done) code_simp
  ultimately show ?thesis by (simp add: parseTestSuiteVector_def)
qed

lemma parse_two_records:
  \<open>parseTestSuiteVector ''[{id:"a",times:1},{times:2}]'' [] =
     Some (Inr [\<lparr>id_t = ''a'', provider_t = [], url_t = [], times_t = 1\<rparr>])\<close>
proof -
  let ?s = \<open>''[{id:"a",times:1},{times:2}]''\<close>
  have "parse_loop ?s 0 [] =
        parse_loop ?s 18 [\<lparr>id_t = ''a'', provider_t = [], url_t = [], times_t = 1\<rparr>]"
    by (subst parse_loop_object [where p = 1 and j = 16 and ok = True
          and t = "\<lparr>id_t = ''a'', provider_t = [], url_t = [], times_t = 1\<rparr>"]; code_simp)
  moreover have "parse_loop ?s 18 out = parse_loop ?s 28 out" for out
    by (subst parse_loop_object [where p = 18 and j = 26 and ok = False
          and t = "\<lparr>id_t = [], provider_t = [], url_t = [], times_t = 2\<rparr>"]; code_simp)
  moreover have "parse_loop ?s 28 out = Some (Inr out)" for out
    by (rule parse_loop_done) code_simp
  ultimately show ?thesis by (simp add: parseTestSuiteVector_def)
qed

lemma extract_two_records:
  \<open>extractTestSuiteArray ''const TEST_SUITE = [{id:"a",times:1},{times:2}];'' =
     ''[{id:"a",times:1},{times:2}]''\<close>
  by (simp add: extract_eval)

lemma parseObject_no_id:
  \<open>parseObject ''{times:2}'' = Inr (False, \<lparr>id_t = [], provider_t = [], url_t = [], times_t = 2\<rparr>)\<close>
  by code_simp

lemma parse_times_x:
  \<open>parseTestSuiteVector ''[{times:x}]'' [] = Some (Inl InvalidArgument)\<close>
  unfolding parseTestSuiteVector_def
  by (rule parse_loop_throw [where p = 1 and j = 9]; code_simp)

section \<open>The claims\<close>

subsection \<open>C1: the list is cleared before the scan\<close>

text \<open>
  C1 fails on the code. The document holds the marker and a balanced array, so
  the extraction succeeds; its one record has no \<^verbatim>\<open>id\<close> and is dropped. The
  loader has cleared the caller's list before the scan, and returns the empty list:
  the list loaded before is lost.
\<close>

theorem loader_clears_previous_list:
  \<open>loadTestSuiteFromUrl [\<lparr>id_t = ''X'', provider_t = ''P'', url_t = ''http://x/'', times_t = 1\<rparr>]
     (True, ''const TEST_SUITE = [{provider:"p"}];'') = Some (Inr [])\<close>
  by (simp add: loadTestSuiteFromUrl_def extract_no_id parse_no_id)

subsection \<open>C2: a times field without digits\<close>

text \<open>
  C2 fails on the code. When the text after \<^verbatim>\<open>times:\<close> does not start with a
  digit, \<^verbatim>\<open>getInt\<close> hands the empty string to \<^verbatim>\<open>std::stoi\<close>, which throws
  \<^verbatim>\<open>std::invalid_argument\<close>; a run of digits beyond the range of \<^verbatim>\<open>int\<close>
  makes it throw \<^verbatim>\<open>std::out_of_range\<close>. Nothing in the program catches either.
\<close>

theorem parseObject_throws:
  \<open>parseObject ''{id:"a",times:abc}'' = Inl InvalidArgument \<and>
   parseObject ''{id:"a",times:-1}'' = Inl InvalidArgument \<and>
   parseObject ''{id:"a",times:99999999999}'' = Inl OutOfRange\<close>
  by code_simp

subsection \<open>C3: the marker of the loader\<close>

text \<open>
  C3, as amended. The marker is the literal \<open>const TEST_SUITE\<close>. When the first
  occurrence of this marker is followed, with no other \<open>[\<close> in between, by an array
  \<open>[body]\<close> with a balanced body, the extraction succeeds and returns that array.
\<close>

theorem extract_const_marker:
  assumes len: "length html < 2 ^ 64"
    and html: "html = pre @ marker @ mid @ CHR ''['' # body @ CHR '']'' # rest"
    and first: "first_at marker html (length pre)"
    and mid: "CHR ''['' \<notin> set mid"
    and body: "balanced body"
  shows "marker = ''const TEST_SUITE'' \<and>
         extractTestSuiteArray html = CHR ''['' # body @ '']''"
proof -
  let ?p = "length pre" and ?k = "length (marker @ mid)"
  have "CHR ''['' \<notin> set (marker @ mid)"
    using mid by (simp add: marker_def)
  then have "find_first ''['' ((marker @ mid) @ CHR ''['' # body @ CHR '']'' # rest) = Some ?k"
    by (rule find_first_chr_append)
  then have k: "first_at ''['' (drop ?p html) ?k"
    by (simp add: first_at_iff html)
  have d: "drop (?p + ?k) html = CHR ''['' # body @ CHR '']'' # rest"
    by (simp add: html)
  have "(0::nat) < 1" "1 + 0 + length body < 2 ^ 64"
    using len by (simp_all add: html)
  from scan_brackets_through [OF body [unfolded balanced_def] this,
      of "CHR '']'' # rest" "?p + ?k + 1"]
  have "scan_brackets (CHR ''['' # body @ CHR '']'' # rest) 0 (?p + ?k) =
        Some (?p + ?k + 1 + length body)"
    by (simp add: inc_size_t_0 dec_size_t_def)
  then have "extractTestSuiteArray html = CHR ''['' # body @ '']''"
    unfolding extract_scan [OF first k] d by simp
  then show ?thesis by (simp add: marker_def)
qed

theorem extract_const_marker_witness:
  "extractTestSuiteArray ''var a = 1; const TEST_SUITE = [[1],[2]]; x]'' = ''[[1],[2]]''"
proof -
  let ?html = "''var a = 1; const TEST_SUITE = [[1],[2]]; x]''"
  have len: "length ?html < 2 ^ 64"
    by simp
  have html: "?html = ''var a = 1; '' @ marker @ '' = '' @ CHR ''['' # ''[1],[2]'' @ CHR '']'' # ''; x]''"
    by (simp add: marker_def)
  have first: "first_at marker ?html (length ''var a = 1; '')"
    by (simp add: first_at_iff marker_def)
  have mid: "CHR ''['' \<notin> set '' = ''"
    by simp
  have body: "balanced ''[1],[2]''"
    by (simp add: balanced_def)
  from extract_const_marker [OF len html first mid body, THEN conjunct2]
  show ?thesis by simp
qed

text \<open>
  C3 as stated fails: in this document the literal \<open>TEST_SUITE\<close> occurs and a
  balanced array follows it, and the extractor returns the empty string, since
  \<open>const\<close> does not stand before it.
\<close>

theorem extract_marker_counterexample:
  "occurs_at ''TEST_SUITE'' (''TEST_SUITE'' @ '' = '' @ ''[1]'') 0 \<and> balanced ''[1]'' \<and>
   extractTestSuiteArray (''TEST_SUITE'' @ '' = '' @ ''[1]'') = []"
  by (simp add: occurs_at_def balanced_def extract_eval)

subsection \<open>C4: the classifier\<close>

text \<open>
  C4, as amended. The \<^verbatim>\<open>switch\<close> of \<^verbatim>\<open>worker\<close> yields, row by row of the
  decision table, the status strings of the source: they carry an emoji, and the
  row for a timeout with zero bytes reads \<open>Detected*\<close>. Status and detail depend on
  the outcome code, \<^verbatim>\<open>received\<close> and \<^verbatim>\<open>aborted_by_threshold\<close> only.
\<close>

theorem classify_table:
  "(65536 \<le> received res \<longrightarrow>
      status (classify se CURLE_OK res) = ''Not detected '' @ check_mark \<and>
      detail (classify se CURLE_OK res) = ''Received >= threshold'') \<and>
   (received res < 65536 \<longrightarrow>
      status (classify se CURLE_OK res) = ''Possibly detected '' @ warning_sign \<and>
      detail (classify se CURLE_OK res) = ''Stream ended, data too small'') \<and>
   (received res = 0 \<longrightarrow>
      status (classify se CURLE_OPERATION_TIMEDOUT res) = ''Detected* '' @ exclamation_mark \<and>
      detail (classify se CURLE_OPERATION_TIMEDOUT res) =
        ''Timeout with zero bytes (likely connection blocked)'') \<and>
   (0 < received res \<longrightarrow>
      status (classify se CURLE_OPERATION_TIMEDOUT res) = ''Detected '' @ exclamation_mark \<and>
      detail (classify se CURLE_OPERATION_TIMEDOUT res) =
        ''Timeout after partial data (read blocked)'') \<and>
   (aborted_by_threshold res \<longrightarrow>
      status (classify se CURLE_ABORTED_BY_CALLBACK res) = ''Not detected '' @ check_mark \<and>
      detail (classify se CURLE_ABORTED_BY_CALLBACK res) = ''Early abort: threshold reached'') \<and>
   (\<not> aborted_by_threshold res \<longrightarrow>
      status (classify se CURLE_ABORTED_BY_CALLBACK res) = ''Detected '' @ exclamation_mark \<and>
      detail (classify se CURLE_ABORTED_BY_CALLBACK res) =
        ''Unexpected abort before threshold'') \<and>
   status (classify se (CURLE_OTHER n) res) = ''Failed to complete detection '' @ warning_sign \<and>
   detail (classify se (CURLE_OTHER n) res) =
     ''curl_error='' @ to_string n @ '' ('' @ se (CURLE_OTHER n) @ '')'' \<and>
   (received res' = received res \<and> aborted_by_threshold res' = aborted_by_threshold res \<longrightarrow>
      status (classify se rc res') = status (classify se rc res) \<and>
      detail (classify se rc res') = detail (classify se rc res))"
  by (simp add: classify_def OK_THRESHOLD_BYTES_def split: CURLcode.split)

theorem classify_table_witness:
  "status (classify (\<lambda>rc. ''unsupported protocol'') CURLE_OK
      \<lparr>id_r = ''A'', provider_r = [], http_code = 200, received = 70000, status = [],
       detail = [], aborted_by_threshold = False\<rparr>) = ''Not detected '' @ check_mark \<and>
   status (classify (\<lambda>rc. ''unsupported protocol'') CURLE_ABORTED_BY_CALLBACK
      \<lparr>id_r = ''A'', provider_r = [], http_code = 200, received = 70000, status = [],
       detail = [], aborted_by_threshold = False\<rparr>) = ''Detected '' @ exclamation_mark \<and>
   status (classify (\<lambda>rc. ''unsupported protocol'') CURLE_OPERATION_TIMEDOUT
      \<lparr>id_r = ''A'', provider_r = [], http_code = 0, received = 0, status = [],
       detail = [], aborted_by_threshold = False\<rparr>) = ''Detected* '' @ exclamation_mark \<and>
   detail (classify (\<lambda>rc. ''unsupported protocol'') (CURLE_OTHER 1)
      \<lparr>id_r = ''A'', provider_r = [], http_code = 0, received = 0, status = [],
       detail = [], aborted_by_threshold = False\<rparr>) = ''curl_error=1 (unsupported protocol)''"
  using classify_table [of "\<lparr>id_r = ''A'', provider_r = [], http_code = 200, received = 70000,
           status = [], detail = [], aborted_by_threshold = False\<rparr>"
           "\<lambda>rc. ''unsupported protocol''" 1
           "\<lparr>id_r = ''B'', provider_r = [], http_code = 0, received = 70000,
           status = [], detail = [], aborted_by_threshold = False\<rparr>" CURLE_OK]
        classify_table [of "\<lparr>id_r = ''A'', provider_r = [], http_code = 0, received = 0,
           status = [], detail = [], aborted_by_threshold = False\<rparr>"
           "\<lambda>rc. ''unsupported protocol''" 1
           "\<lparr>id_r = ''B'', provider_r = [], http_code = 0, received = 0,
           status = [], detail = [], aborted_by_threshold = False\<rparr>" CURLE_OK]
  by (simp add: to_string_digits)

text \<open>
  C4 as stated fails: after a timeout with zero bytes the status is not the
  string \<open>Detected (probable)\<close>.
\<close>

theorem classify_probable_counterexample:
  "status (classify (\<lambda>rc. []) CURLE_OPERATION_TIMEDOUT
      \<lparr>id_r = ''A'', provider_r = [], http_code = 0, received = 0, status = [],
       detail = [], aborted_by_threshold = False\<rparr>) \<noteq> ''Detected (probable)''"
  by (simp add: classify_def)

subsection \<open>C5: what the extractor returns\<close>

text \<open>
  C5. For a text of fewer than \<open>2 ^ 64\<close> bytes (every \<^verbatim>\<open>std::string\<close>):
  the extractor returns the empty string when the marker does not occur, when no
  \<open>[\<close> follows its first occurrence \<open>p\<close>, and when no non-empty prefix of the
  text from the first \<open>[\<close> after \<open>p\<close> is balanced. When some prefix of \<open>n > 0\<close>
  characters of the text from that bracket is balanced, the result is not empty,
  starts with \<open>[\<close>, ends with \<open>]\<close>, is balanced, and is the text from that bracket
  on, cut after a closing bracket.
\<close>

theorem extract_balanced:
  assumes len: "length html < 2 ^ 64"
  shows
  "((\<forall>n. \<not> occurs_at marker html n) \<longrightarrow> extractTestSuiteArray html = []) \<and>
   (first_at marker html p \<and> CHR ''['' \<notin> set (drop p html) \<longrightarrow>
      extractTestSuiteArray html = []) \<and>
   (first_at marker html p \<and> first_at ''['' (drop p html) k \<and>
    (\<forall>n>0. \<not> balanced (take n (drop (p + k) html))) \<longrightarrow>
      extractTestSuiteArray html = []) \<and>
   (first_at marker html p \<and> first_at ''['' (drop p html) k \<and>
    0 < n \<and> balanced (take n (drop (p + k) html)) \<longrightarrow>
      extractTestSuiteArray html \<noteq> [] \<and>
      hd (extractTestSuiteArray html) = CHR ''['' \<and>
      last (extractTestSuiteArray html) = CHR '']'' \<and>
      balanced (extractTestSuiteArray html) \<and>
      prefix (extractTestSuiteArray html) (drop (p + k) html))"
proof (intro conjI)
  show "(\<forall>n. \<not> occurs_at marker html n) \<longrightarrow> extractTestSuiteArray html = []"
    by (simp add: no_occurrence_iff extract_no_marker)
  show "first_at marker html p \<and> CHR ''['' \<notin> set (drop p html) \<longrightarrow>
      extractTestSuiteArray html = []"
    using extract_no_bracket by blast
  show "first_at marker html p \<and> first_at ''['' (drop p html) k \<and>
    (\<forall>n>0. \<not> balanced (take n (drop (p + k) html))) \<longrightarrow>
      extractTestSuiteArray html = []"
    using extract_never_balanced [OF len] by blast
  show "first_at marker html p \<and> first_at ''['' (drop p html) k \<and>
    0 < n \<and> balanced (take n (drop (p + k) html)) \<longrightarrow>
      extractTestSuiteArray html \<noteq> [] \<and>
      hd (extractTestSuiteArray html) = CHR ''['' \<and>
      last (extractTestSuiteArray html) = CHR '']'' \<and>
      balanced (extractTestSuiteArray html) \<and>
      prefix (extractTestSuiteArray html) (drop (p + k) html)"
    using extract_found [OF len] by blast
qed

theorem extract_balanced_witness:
  "extractTestSuiteArray ''TEST_SUITE = [1]'' = [] \<and>
   extractTestSuiteArray ''const TEST_SUITE = 1'' = [] \<and>
   extractTestSuiteArray ''const TEST_SUITE = ['' = [] \<and>
   extractTestSuiteArray ''x const TEST_SUITE = [[1],[2]]; ]'' \<noteq> [] \<and>
   hd (extractTestSuiteArray ''x const TEST_SUITE = [[1],[2]]; ]'') = CHR ''['' \<and>
   last (extractTestSuiteArray ''x const TEST_SUITE = [[1],[2]]; ]'') = CHR '']'' \<and>
   balanced (extractTestSuiteArray ''x const TEST_SUITE = [[1],[2]]; ]'')"
proof -
  have a: "\<forall>n. \<not> occurs_at marker ''TEST_SUITE = [1]'' n"
    by (simp add: no_occurrence_iff marker_def)
  have b: "first_at marker ''const TEST_SUITE = 1'' 0"
    "CHR ''['' \<notin> set (drop 0 ''const TEST_SUITE = 1'')"
    by (simp_all add: first_at_iff marker_def)
  have c: "first_at marker ''const TEST_SUITE = ['' 0"
    "first_at ''['' (drop 0 ''const TEST_SUITE = ['') 19"
    by (simp_all add: first_at_iff marker_def)
  have "\<not> balanced (take n ''['')" if "0 < n" for n
    using that by (cases n) (simp_all add: balanced_def)
  then have c': "\<forall>n>0. \<not> balanced (take n (drop (0 + 19) ''const TEST_SUITE = [''))"
    by simp
  have d: "first_at marker ''x const TEST_SUITE = [[1],[2]]; ]'' 2"
    "first_at ''['' (drop 2 ''x const TEST_SUITE = [[1],[2]]; ]'') 19"
    "(0::nat) < 9"
    "balanced (take 9 (drop (2 + 19) ''x const TEST_SUITE = [[1],[2]]; ]''))"
    by (simp_all add: first_at_iff marker_def balanced_def)
  have "extractTestSuiteArray ''TEST_SUITE = [1]'' = []"
    by (rule extract_balanced [where html = "''TEST_SUITE = [1]''" and p = 0 and k = 0
          and n = 0, THEN conjunct1, THEN mp]) (simp, rule a)
  moreover have "extractTestSuiteArray ''const TEST_SUITE = 1'' = []"
    by (rule extract_balanced [where html = "''const TEST_SUITE = 1''" and p = 0 and k = 0
          and n = 0, THEN conjunct2, THEN conjunct1, THEN mp]) (simp, intro conjI b)
  moreover have "extractTestSuiteArray ''const TEST_SUITE = ['' = []"
    by (rule extract_balanced [where html = "''const TEST_SUITE = [''" and p = 0 and k = 19
          and n = 0, THEN conjunct2, THEN conjunct2, THEN conjunct1, THEN mp])
       (simp, intro conjI c c')
  moreover have "extractTestSuiteArray ''x const TEST_SUITE = [[1],[2]]; ]'' \<noteq> [] \<and>
      hd (extractTestSuiteArray ''x const TEST_SUITE = [[1],[2]]; ]'') = CHR ''['' \<and>
      last (extractTestSuiteArray ''x const TEST_SUITE = [[1],[2]]; ]'') = CHR '']'' \<and>
      balanced (extractTestSuiteArray ''x const TEST_SUITE = [[1],[2]]; ]'')"
    using extract_balanced [where html = "''x const TEST_SUITE = [[1],[2]]; ]''" and p = 2
          and k = 19 and n = 9, THEN conjunct2, THEN conjunct2, THEN conjunct2, THEN mp,
          OF _ conjI [OF d(1) conjI [OF d(2) conjI [OF d(3) d(4)]]]]
    by simp
  ultimately show ?thesis by blast
qed

subsection \<open>C6: the soft failure of the loader\<close>

text \<open>
  C6. When the fetch fails, or the extractor returns the empty string, the loader
  returns, with the caller's list as it was, and no exception leaves it.
\<close>

theorem loader_soft_fail:
  "\<not> fst fetched \<or> extractTestSuiteArray (snd fetched) = [] \<Longrightarrow>
   loadTestSuiteFromUrl tests fetched = Some (Inr tests)"
  by (auto simp: loadTestSuiteFromUrl_def Let_def)

theorem loader_soft_fail_witness:
  \<open>loadTestSuiteFromUrl [\<lparr>id_t = ''X'', provider_t = ''P'', url_t = ''http://x/'', times_t = 1\<rparr>]
     (False, ''const TEST_SUITE = [{id:"a",times:1}];'')
    = Some (Inr [\<lparr>id_t = ''X'', provider_t = ''P'', url_t = ''http://x/'', times_t = 1\<rparr>]) \<and>
   loadTestSuiteFromUrl [\<lparr>id_t = ''X'', provider_t = ''P'', url_t = ''http://x/'', times_t = 1\<rparr>]
     (True, ''TEST_SUITE = [1]'')
    = Some (Inr [\<lparr>id_t = ''X'', provider_t = ''P'', url_t = ''http://x/'', times_t = 1\<rparr>])\<close>
  using loader_soft_fail [of \<open>(False, ''const TEST_SUITE = [{id:"a",times:1}];'')\<close>
          "[\<lparr>id_t = ''X'', provider_t = ''P'', url_t = ''http://x/'', times_t = 1\<rparr>]"]
        loader_soft_fail [of "(True, ''TEST_SUITE = [1]'')"
          "[\<lparr>id_t = ''X'', provider_t = ''P'', url_t = ''http://x/'', times_t = 1\<rparr>]"]
  by (simp add: extract_without_const)

subsection \<open>C7: no Test with an empty id\<close>

text \<open>
  C7. When \<open>id:\<close> does not occur in a record, \<^verbatim>\<open>getString\<close> gives the empty
  id; \<^verbatim>\<open>parseObject\<close> returns true exactly when the id it scraped is not empty;
  \<^verbatim>\<open>parseTestSuiteVector\<close> appends only Tests with a non-empty id; and every
  worker that \<^verbatim>\<open>main\<close>, which starts from the empty list, creates after the
  load has a Test with a non-empty id.
\<close>

theorem empty_id_dropped:
  "((\<forall>n. \<not> occurs_at ''id:'' obj n) \<longrightarrow> getString obj ''id'' = []) \<and>
   (parseObject obj = Inr (ok, t) \<longrightarrow> (ok \<longleftrightarrow> getString obj ''id'' \<noteq> [])) \<and>
   (parseTestSuiteVector arr out = Some (Inr out') \<longrightarrow>
      (\<exists>new. out' = out @ new \<and> (\<forall>t \<in> set new. id_t t \<noteq> []))) \<and>
   (loadTestSuiteFromUrl [] fetched = Some (Inr tests) \<longrightarrow>
      (\<forall>w \<in> set (workers tests). id_t (fst w) \<noteq> []))"
proof (intro conjI impI)
  assume "\<forall>n. \<not> occurs_at ''id:'' obj n"
  then show "getString obj ''id'' = []"
    by (simp add: no_occurrence_iff getString_def find_str_0)
next
  assume "parseObject obj = Inr (ok, t)"
  from parseObject_flag [OF this] parseObject_id [OF this]
  show "ok \<longleftrightarrow> getString obj ''id'' \<noteq> []" by simp
next
  assume "parseTestSuiteVector arr out = Some (Inr out')"
  then show "\<exists>new. out' = out @ new \<and> (\<forall>t \<in> set new. id_t t \<noteq> [])"
    unfolding parseTestSuiteVector_def by (rule parse_loop_ids)
next
  assume l: "loadTestSuiteFromUrl [] fetched = Some (Inr tests)"
  have "\<forall>t \<in> set tests. id_t t \<noteq> []"
  proof (cases "\<not> fst fetched \<or> extractTestSuiteArray (snd fetched) = []")
    case True
    with l have "tests = []"
      unfolding loadTestSuiteFromUrl_def Let_def by (auto split: if_splits)
    then show ?thesis by simp
  next
    case False
    with l have "parse_loop (extractTestSuiteArray (snd fetched)) 0 [] = Some (Inr tests)"
      unfolding loadTestSuiteFromUrl_def Let_def parseTestSuiteVector_def
      by (auto split: if_splits)
    from parse_loop_ids [OF this] show ?thesis by simp
  qed
  then show "\<forall>w \<in> set (workers tests). id_t (fst w) \<noteq> []"
    by (auto dest: workers_tests)
qed

theorem empty_id_dropped_witness:
  \<open>parseObject ''{times:2}'' =
     Inr (False, \<lparr>id_t = [], provider_t = [], url_t = [], times_t = 2\<rparr>) \<and>
   getString ''{times:2}'' ''id'' = [] \<and>
   loadTestSuiteFromUrl [] (True, ''const TEST_SUITE = [{id:"a",times:1},{times:2}];'') =
     Some (Inr [\<lparr>id_t = ''a'', provider_t = [], url_t = [], times_t = 1\<rparr>]) \<and>
   workers [\<lparr>id_t = ''a'', provider_t = [], url_t = [], times_t = 1\<rparr>] =
     [(\<lparr>id_t = ''a'', provider_t = [], url_t = [], times_t = 1\<rparr>, 0)]\<close>
  using empty_id_dropped [where obj = \<open>''{times:2}''\<close> and ok = False
          and t = "\<lparr>id_t = [], provider_t = [], url_t = [], times_t = 2\<rparr>"
          and arr = \<open>''[{id:"a",times:1},{times:2}]''\<close> and out = "[]"
          and out' = "[\<lparr>id_t = ''a'', provider_t = [], url_t = [], times_t = 1\<rparr>]"
          and fetched = \<open>(True, ''const TEST_SUITE = [{id:"a",times:1},{times:2}];'')\<close>
          and tests = "[\<lparr>id_t = ''a'', provider_t = [], url_t = [], times_t = 1\<rparr>]"]
  by (simp add: parseObject_no_id parse_two_records extract_two_records
        loadTestSuiteFromUrl_def workers_def no_occurrence_iff)

subsection \<open>C8: the threshold-abort check\<close>

text \<open>
  C8. On a progress tick \<^verbatim>\<open>xferinfo_cb\<close> returns nonzero exactly when the
  \<^verbatim>\<open>received\<close> counter is at least 65536, the value of the global constant
  \<^verbatim>\<open>OK_THRESHOLD_BYTES\<close>; in that case it sets \<^verbatim>\<open>aborted_by_threshold\<close> and
  returns 1, otherwise it leaves the Result as it is and returns 0. The callback
  reads no Test, so no test can change the threshold.
\<close>

theorem xferinfo_cb_threshold:
  "OK_THRESHOLD_BYTES = 65536 \<and>
   (snd (xferinfo_cb res) \<noteq> 0 \<longleftrightarrow> 65536 \<le> received res) \<and>
   (65536 \<le> received res \<longrightarrow>
      xferinfo_cb res = (res\<lparr>aborted_by_threshold := True\<rparr>, 1)) \<and>
   (received res < 65536 \<longrightarrow> xferinfo_cb res = (res, 0))"
  by (simp add: xferinfo_cb_def OK_THRESHOLD_BYTES_def)

theorem xferinfo_cb_threshold_witness:
  "xferinfo_cb \<lparr>id_r = ''A'', provider_r = [], http_code = 200, received = 65536, status = [],
       detail = [], aborted_by_threshold = False\<rparr>
     = (\<lparr>id_r = ''A'', provider_r = [], http_code = 200, received = 65536, status = [],
       detail = [], aborted_by_threshold = True\<rparr>, 1) \<and>
   xferinfo_cb \<lparr>id_r = ''A'', provider_r = [], http_code = 200, received = 65535, status = [],
       detail = [], aborted_by_threshold = False\<rparr>
     = (\<lparr>id_r = ''A'', provider_r = [], http_code = 200, received = 65535, status = [],
       detail = [], aborted_by_threshold = False\<rparr>, 0)"
  using xferinfo_cb_threshold [of "\<lparr>id_r = ''A'', provider_r = [], http_code = 200,
         received = 65536, status = [], detail = [], aborted_by_threshold = False\<rparr>"]
        xferinfo_cb_threshold [of "\<lparr>id_r = ''A'', provider_r = [], http_code = 200,
         received = 65535, status = [], detail = [], aborted_by_threshold = False\<rparr>"]
  by simp

subsection \<open>C9: the ids of the Results\<close>

text \<open>
  C9. The Result of a worker started with the Test \<open>t\<close> and the index \<open>idx\<close> has
  the id of \<open>t\<close>, followed by \<open>@\<close> and the decimal index when \<open>times > 1\<close>, and
  alone when \<open>times \<le> 1\<close>. For every list of Tests, \<^verbatim>\<open>main\<close> starts a worker
  with \<open>(t, i)\<close> exactly for the Tests \<open>t\<close> of the list and the indices
  \<open>0 \<le> i < times\<close>; the ids of their Results, in the order of creation, are
  those of the first Test for \<open>i = 0, ..., times - 1\<close>, then those of the second,
  and so on. A Test \<open>{id: A, times: 3}\<close> gives the ids A@0, A@1, A@2, also inside
  a longer list.
\<close>

theorem worker_result_ids:
  "map_option id_r (worker se (Some x) t idx) =
     Some (if 1 < times_t t then id_t t @ ''@'' @ to_string idx else id_t t) \<and>
   ((t, i) \<in> set (workers tests) \<longleftrightarrow> t \<in> set tests \<and> 0 \<le> i \<and> i < times_t t) \<and>
   map (\<lambda>(t, i). map_option id_r (worker se (Some (y t i)) t i)) (workers tests) =
     concat (map (\<lambda>t. map (\<lambda>i. Some (if 1 < times_t t then id_t t @ ''@'' @ to_string i
                                        else id_t t)) [0 .. times_t t - 1]) tests)"
proof (intro conjI)
  show "map_option id_r (worker se (Some x) t idx) =
     Some (if 1 < times_t t then id_t t @ ''@'' @ to_string idx else id_t t)"
    by (simp add: worker_def id_r_classify)
  show "(t, i) \<in> set (workers tests) \<longleftrightarrow> t \<in> set tests \<and> 0 \<le> i \<and> i < times_t t"
    by (rule workers_member)
  show "map (\<lambda>(t, i). map_option id_r (worker se (Some (y t i)) t i)) (workers tests) =
     concat (map (\<lambda>t. map (\<lambda>i. Some (if 1 < times_t t then id_t t @ ''@'' @ to_string i
                                        else id_t t)) [0 .. times_t t - 1]) tests)"
    by (induction tests)
       (simp_all add: workers_Nil workers_Cons worker_def id_r_classify comp_def)
qed

theorem worker_result_ids_witness:
  "map (\<lambda>(t, i). map_option id_r (worker (\<lambda>rc. []) (Some \<lparr>xfer_rc = CURLE_OK,
          xfer_received = 70000, xfer_aborted = False, xfer_http_code = 200\<rparr>) t i))
     (workers [\<lparr>id_t = ''B'', provider_t = ''P'', url_t = ''http://b/'', times_t = 1\<rparr>,
               \<lparr>id_t = ''A'', provider_t = ''P'', url_t = ''http://a/'', times_t = 3\<rparr>])
   = [Some ''B'', Some ''A@0'', Some ''A@1'', Some ''A@2'']"
proof -
  let ?se = "\<lambda>rc :: CURLcode. []"
  let ?x = "\<lparr>xfer_rc = CURLE_OK, xfer_received = 70000, xfer_aborted = False,
             xfer_http_code = 200\<rparr>"
  let ?a = "\<lparr>id_t = ''A'', provider_t = ''P'', url_t = ''http://a/'', times_t = 3\<rparr>"
  let ?b = "\<lparr>id_t = ''B'', provider_t = ''P'', url_t = ''http://b/'', times_t = 1\<rparr>"
  from worker_result_ids [where se = ?se and x = ?x and t = ?a and idx = 0 and i = 0
      and tests = "[?b, ?a]" and y = "\<lambda>t i. ?x", THEN conjunct2, THEN conjunct2]
  show ?thesis
    by (simp add: upto_0_2 to_string_digits)
qed

subsection \<open>C10: the scan of the array does not always return\<close>

text \<open>
  C10 fails on the code. On this text \<^verbatim>\<open>parseTestSuiteVector\<close> does not return:
  the record found has a \<^verbatim>\<open>times\<close> field without a digit, \<^verbatim>\<open>std::stoi\<close> throws
  inside \<^verbatim>\<open>parseObject\<close>, and the exception leaves the function. It is the defect
  of C2.
\<close>

theorem parseTestSuiteVector_throws:
  \<open>parseTestSuiteVector ''[{times:x}]'' [] = Some (Inl InvalidArgument)\<close>
  by (rule parse_times_x)

text \<open>
  What holds of the two loops: on every text the scan ends, so it never runs
  forever, whether or not the braces are closed. It returns whenever
  \<^verbatim>\<open>parseObject\<close> throws on no piece of the text, and on a text with no closing
  brace at all it returns the vector unchanged.
\<close>

theorem parseTestSuiteVector_halts:
  "(\<exists>r. parseTestSuiteVector arrayText out = Some r) \<and>
   ((\<forall>p n e. parseObject (substr arrayText p n) \<noteq> Inl e) \<longrightarrow>
      (\<exists>ts. parseTestSuiteVector arrayText out = Some (Inr ts))) \<and>
   (CHR ''}'' \<notin> set arrayText \<longrightarrow> parseTestSuiteVector arrayText out = Some (Inr out))"
  by (simp add: parseTestSuiteVector_def parse_loop_halts parse_loop_no_close
        parse_loop_returns)

end
